theory Spec2Isabelle
  imports Complex_Main "HOL-Library.AList" "HOL-Library.Sublist"
begin

section \<open>Exceptions\<close>

text \<open>
  Every exception the modelled code can raise is a value. The first four are the classes of
  \<^verbatim>\<open>exceptions.py\<close> and of \<^verbatim>\<open>requests\<close>; the others are Python built-ins.
  \<open>ConnectionError\<close> stands for any failure of the transport itself.
\<close>

datatype exn =
    PageNotFound
  | PageForbiddenError
  | LetterboxdError
  | HTTPError
  | ConnectionError
  | AttributeError
  | AssertionError
  | UnboundLocalError
  | ValueError
  | KeyError int
  | TypeError
  | UnpicklingError

section \<open>Rating aggregation (film.py, util.py)\<close>

text \<open>
  A rating histogram is the Python dict \<^verbatim>\<open>{score: count}\<close>, kept as an association list in
  insertion order. Scores are half-star units. Python's floats are modelled by exact
  rationals: \<^verbatim>\<open>int / int\<close> is correctly rounded and a product with \<^verbatim>\<open>0.5\<close> is exact, so the
  float the code returns is the rounding of the rational computed here.
\<close>

type_synonym histogram = "(int \<times> int) list"

definition ratings_number_of :: "histogram \<Rightarrow> int" where
  "ratings_number_of ratings = sum_list (map snd ratings)"

definition ratings_total_score :: "histogram \<Rightarrow> int" where
  "ratings_total_score ratings =
     (if ratings_number_of ratings = 0 then 0
      else sum_list (map (\<lambda>(s, q). s * q) ratings))"

definition rating_true :: "histogram \<Rightarrow> rat option" where
  "rating_true ratings =
     (let rat_num = ratings_number_of ratings in
      if rat_num = 0 then None
      else Some ((of_int (ratings_total_score ratings) / of_int rat_num) * (1 / 2)))"

text \<open>
  \<^verbatim>\<open>max(zip(d.values(), d.keys()))\<close> compares \<open>(count, score)\<close> tuples lexicographically and
  keeps the first maximal one it meets; on an empty sequence \<^verbatim>\<open>max\<close> raises \<open>ValueError\<close>.
\<close>

definition tuple_less :: "int \<times> int \<Rightarrow> int \<times> int \<Rightarrow> bool" where
  "tuple_less a b = (fst a < fst b \<or> (fst a = fst b \<and> snd a < snd b))"

fun py_max :: "(int \<times> int) list \<Rightarrow> (int \<times> int) option" where
  "py_max [] = None"
| "py_max (x # xs) = Some (foldl (\<lambda>m y. if tuple_less m y then y else m) x xs)"

definition max_key :: "histogram \<Rightarrow> exn + int" where
  "max_key d =
     (case py_max (zip (map snd d) (map fst d)) of
        None \<Rightarrow> Inl ValueError
      | Some m \<Rightarrow> Inr (snd m))"

text \<open>
  The \<^verbatim>\<open>while n <= max_num\<close> loop of \<^verbatim>\<open>key_max\<close> runs \<open>max_num\<close> times (not at all when
  \<open>max_num\<close> is below one); the first argument counts the iterations left. It carries the
  shrinking copy of the dict, the last maximum \<open>m\<close> (unbound before the first iteration) and
  \<open>max_keys\<close>.
\<close>

fun key_max_loop ::
  "nat \<Rightarrow> histogram \<Rightarrow> int option \<Rightarrow> int list \<Rightarrow> exn + (int option \<times> int list)" where
  "key_max_loop 0 d m max_keys = Inr (m, max_keys)"
| "key_max_loop (Suc k) d m max_keys =
     (case max_key d of
        Inl e \<Rightarrow> Inl e
      | Inr m' \<Rightarrow> key_max_loop k (AList.delete m' d) (Some m') (max_keys @ [m']))"

datatype key_result = Key int | Keys "int list"

definition key_max :: "histogram \<Rightarrow> int \<Rightarrow> bool \<Rightarrow> exn + key_result" where
  "key_max d max_num multiple_maxes =
     (if \<not> (int (length d) \<ge> max_num) then Inl AssertionError
      else if max_num = 1 then
        (case max_key d of
           Inl e \<Rightarrow> Inl e
         | Inr m \<Rightarrow> if multiple_maxes then Inl UnboundLocalError else Inr (Key m))
      else
        (case key_max_loop (nat max_num) d None [] of
           Inl e \<Rightarrow> Inl e
         | Inr (m, max_keys) \<Rightarrow>
             if multiple_maxes then Inr (Keys max_keys)
             else (case m of None \<Rightarrow> Inl UnboundLocalError | Some k \<Rightarrow> Inr (Key k))))"

text \<open>
  \<^verbatim>\<open>rating_ironic\<close> builds the tuple given to \<^verbatim>\<open>all\<close> eagerly, left to right: both calls of
  \<^verbatim>\<open>key_max\<close>, then \<^verbatim>\<open>ratings[1]\<close> and \<^verbatim>\<open>ratings[10]\<close>, each of which raises \<open>KeyError\<close> on a
  missing key. Sorting a list that holds a tuple and an int raises \<open>TypeError\<close>.
\<close>

definition rating_ironic :: "histogram \<Rightarrow> exn + bool" where
  "rating_ironic ratings =
     (let minimum_number_of_ratings = 3 in
      case key_max ratings 1 False of
        Inl e \<Rightarrow> Inl e
      | Inr (Keys ks) \<Rightarrow> Inl TypeError
      | Inr (Key a) \<Rightarrow>
      (case key_max ratings 2 False of
        Inl e \<Rightarrow> Inl e
      | Inr (Keys ks) \<Rightarrow> Inl TypeError
      | Inr (Key b) \<Rightarrow>
      (case map_of ratings 1 of
        None \<Rightarrow> Inl (KeyError 1)
      | Some c1 \<Rightarrow>
      (case map_of ratings 10 of
        None \<Rightarrow> Inl (KeyError 10)
      | Some c10 \<Rightarrow>
          Inr (sort [a, b] = [1, 10]
               \<and> c1 \<ge> minimum_number_of_ratings
               \<and> c10 \<ge> minimum_number_of_ratings)))))"

text \<open>
  The specification's reading of the same predicate, for comparison with the code: the two
  most frequent scores, ties broken by key order (the first score seen at the maximum
  count), are exactly 1 and 10, and both have at least \<open>minimumEach\<close> ratings; an absent
  key counts zero.
\<close>

definition spec_count :: "histogram \<Rightarrow> int \<Rightarrow> int" where
  "spec_count h k = (case map_of h k of None \<Rightarrow> 0 | Some c \<Rightarrow> c)"

definition spec_first_seen_at_maximum :: "histogram \<Rightarrow> int option" where
  "spec_first_seen_at_maximum h =
     map_option fst (find (\<lambda>(k, c). \<forall>c' \<in> set (map snd h). c' \<le> c) h)"

definition spec_isIronic :: "histogram \<Rightarrow> int \<Rightarrow> bool" where
  "spec_isIronic h minimumEach =
     (case spec_first_seen_at_maximum h of
        None \<Rightarrow> False
      | Some a \<Rightarrow>
          (case spec_first_seen_at_maximum (AList.delete a h) of
             None \<Rightarrow> False
           | Some b \<Rightarrow>
               {a, b} = {1, 10}
               \<and> spec_count h 1 \<ge> minimumEach \<and> spec_count h 10 \<ge> minimumEach))"

text \<open>
  \<^verbatim>\<open>_get_bayesian_average\<close>. The list comprehensions look every score of \<^verbatim>\<open>range(1, 11)\<close> up
  with \<^verbatim>\<open>d[n]\<close>, in order, so the first absent score raises \<open>KeyError\<close>. The percent point
  function \<^verbatim>\<open>scipy.stats.beta.ppf\<close> is not part of the repository: a result is recorded as
  the call that produces it, \<open>Beta_ppf_rescaled q a b\<close> for
  \<^verbatim>\<open>beta.ppf(q, a, b) * 4.5 + 0.5\<close>, and \<open>Given v\<close> for the fallback handed back unchanged.
\<close>

datatype bayesian_average = Given "rat option" | Beta_ppf_rescaled rat rat rat

fun weighted_counts :: "histogram \<Rightarrow> (int \<Rightarrow> rat) \<Rightarrow> int list \<Rightarrow> exn + rat list" where
  "weighted_counts d w [] = Inr []"
| "weighted_counts d w (n # ns) =
     (case map_of d n of
        None \<Rightarrow> Inl (KeyError n)
      | Some c \<Rightarrow>
          (case weighted_counts d w ns of
             Inl e \<Rightarrow> Inl e
           | Inr xs \<Rightarrow> Inr (of_int c * w n # xs)))"

definition get_bayesian_average ::
  "histogram \<Rightarrow> rat option \<Rightarrow> rat \<Rightarrow> exn + bayesian_average" where
  "get_bayesian_average d no_rating_fallback a0 =
     (if d = [] \<or> \<not> (\<exists>c \<in> set (map snd d). c \<noteq> 0) then Inr (Given no_rating_fallback)
      else
        (case weighted_counts d (\<lambda>n. (of_int n - 1) / 9) [1..10] of
           Inl e \<Rightarrow> Inl e
         | Inr ups \<Rightarrow>
             (case weighted_counts d (\<lambda>n. (9 - (of_int n - 1)) / 9) [1..10] of
                Inl e \<Rightarrow> Inl e
              | Inr downs \<Rightarrow>
                  Inr (Beta_ppf_rescaled (1 / 20) (sum_list ups + a0) (sum_list downs + a0)))))"

section \<open>Star ratings (letterboxd.py)\<close>

text \<open>
  A Python \<^verbatim>\<open>str\<close> is a sequence of Unicode code points; the star and the half are outside
  the 8-bit range of \<^typ>\<open>char\<close>, so these strings are lists of code points.
  \<open>RATING_STAR\<close> is U+2605, \<open>RATING_HALF\<close> is U+00BD, and \<open>RATING_HALF_ONLY\<close> is the word
  \<^verbatim>\<open>half-\<close> followed by the star.
\<close>

type_synonym ustr = "nat list"

definition RATING_STAR :: nat where
  "RATING_STAR = 9733"

definition RATING_HALF :: nat where
  "RATING_HALF = 189"

definition RATING_HALF_ONLY :: ustr where
  "RATING_HALF_ONLY = [104, 97, 108, 102, 45, 9733]"

definition RATINGS_RANGE :: "rat list" where
  "RATINGS_RANGE = map (\<lambda>k. of_int k / 2) [1..10]"

text \<open>\<^verbatim>\<open>int(x)\<close> truncates towards zero.\<close>

definition py_int :: "rat \<Rightarrow> int" where
  "py_int x = (if 0 \<le> x then \<lfloor>x\<rfloor> else \<lceil>x\<rceil>)"

definition num_to_star_rating :: "rat \<Rightarrow> exn + ustr" where
  "num_to_star_rating num =
     (if num = 1 / 2 then Inr RATING_HALF_ONLY
      else
        (let num_int = py_int (num * 2) in
         if \<not> (1 \<le> num_int \<and> num_int < 11) then Inl ValueError
         else
           (let star = num_int div 2; half = num_int mod 2 in
            Inr (replicate (nat star) RATING_STAR @ replicate (nat half) RATING_HALF))))"

text \<open>The code points \<^verbatim>\<open>str.strip()\<close> removes: those for which \<^verbatim>\<open>str.isspace\<close> holds.\<close>

definition isspace :: "nat \<Rightarrow> bool" where
  "isspace c =
     ((9 \<le> c \<and> c \<le> 13) \<or> (28 \<le> c \<and> c \<le> 32) \<or> c = 133 \<or> c = 160 \<or> c = 5760
      \<or> (8192 \<le> c \<and> c \<le> 8202) \<or> c = 8232 \<or> c = 8233 \<or> c = 8239 \<or> c = 8287
      \<or> c = 12288)"

definition strip :: "ustr \<Rightarrow> ustr" where
  "strip s = rev (dropWhile isspace (rev (dropWhile isspace s)))"

definition star_rating_to_num :: "ustr \<Rightarrow> exn + rat" where
  "star_rating_to_num star_rating =
     (if star_rating = RATING_HALF_ONLY then Inr (1 / 2)
      else
        (let s = strip star_rating;
             invalid_chars = filter (\<lambda>c. c \<noteq> RATING_STAR \<and> c \<noteq> RATING_HALF) s in
         if invalid_chars \<noteq> [] then Inl ValueError
         else
           (let result = of_nat (count_list s RATING_STAR)
                         + (1 / 2) * of_nat (count_list s RATING_HALF) in
            if result * 2 \<notin> set (map of_int [1..10]) then Inl ValueError
            else Inr result)))"

section \<open>Paginated collection (find.py, member.py)\<close>

text \<open>
  \<^verbatim>\<open>Find._get_results\<close> walks a search listing whose first page states the number of the last
  page. What the walk needs from a fetched page is \<^verbatim>\<open>letterboxd.get_last_page(soup)\<close> and the
  records \<^verbatim>\<open>get_page_func(ul)\<close> extracts; the parsing itself belongs to the document parser.
  The function \<open>fetch\<close> stands for \<^verbatim>\<open>session.request('GET', make_substring(query, category, n))\<close>
  followed by that parsing: it gives the page, or the exception the request raises. Every
  walk also returns the page numbers it requested, in order.
\<close>

record 'r search_page =
  last_page :: int
  results_on_page :: "'r list"

definition RESULTS_PER_PAGE :: int where
  "RESULTS_PER_PAGE = 20"

text \<open>
  \<^verbatim>\<open>_get_soup\<close> turns \<open>PageNotFound\<close> into \<^verbatim>\<open>None\<close>. A response the gateway returns always has
  a successful transport status, so \<^verbatim>\<open>not response\<close> holds for \<^verbatim>\<open>None\<close> only.
\<close>

definition get_soup :: "(int \<Rightarrow> exn + 'r search_page) \<Rightarrow> exn + 'r search_page option" where
  "get_soup fetch =
     (case fetch 1 of
        Inl PageNotFound \<Rightarrow> Inr None
      | Inl e \<Rightarrow> Inl e
      | Inr response \<Rightarrow> Inr (Some response))"

text \<open>
  The \<^verbatim>\<open>while True\<close> loop. It leaves only when \<open>page_current\<close> equals \<open>page_stop\<close> or a request
  raises, so for a \<open>page_stop\<close> below the current page it does not return.
\<close>

partial_function (option) results_loop ::
  "(int \<Rightarrow> exn + 'r search_page) \<Rightarrow> int \<Rightarrow> 'r search_page \<Rightarrow> 'r list \<Rightarrow> int \<Rightarrow> int list
     \<Rightarrow> (int list \<times> (exn + 'r list)) option" where
  "results_loop fetch page_stop response results page_current requested =
     (if page_current = page_stop then Some (requested, Inr (results @ results_on_page response))
      else
        (case fetch (page_current + 1) of
           Inl e \<Rightarrow> Some (requested @ [page_current + 1], Inl e)
         | Inr response' \<Rightarrow>
             results_loop fetch page_stop response' (results @ results_on_page response)
               (page_current + 1) (requested @ [page_current + 1])))"

declare results_loop.simps [code]

text \<open>
  \<^verbatim>\<open>if limit\<close> is false for \<^verbatim>\<open>None\<close> and for \<open>0\<close>. \<^verbatim>\<open>math.ceil(limit / 20)\<close> is the exact ceiling
  of the quotient (the float quotient of an int by 20 rounds to it for every limit a listing can
  reach), and \<^verbatim>\<open>results[:limit]\<close> with a negative limit drops from the end.
\<close>

definition truthy_limit :: "int option \<Rightarrow> bool" where
  "truthy_limit limit = (case limit of None \<Rightarrow> False | Some l \<Rightarrow> l \<noteq> 0)"

definition py_ceil_div :: "int \<Rightarrow> int \<Rightarrow> int" where
  "py_ceil_div a b = - ((- a) div b)"

definition slice_to :: "'a list \<Rightarrow> int \<Rightarrow> 'a list" where
  "slice_to xs n = (if 0 \<le> n then take (nat n) xs else take (length xs - nat (- n)) xs)"

definition get_results ::
  "(int \<Rightarrow> exn + 'r search_page) \<Rightarrow> int option \<Rightarrow> (int list \<times> (exn + 'r list)) option" where
  "get_results fetch limit =
     (case get_soup fetch of
        Inl e \<Rightarrow> Some ([1], Inl e)
      | Inr None \<Rightarrow> Some ([1], Inr [])
      | Inr (Some response) \<Rightarrow>
          (let page_stop =
                 (if truthy_limit limit
                  then min (last_page response) (py_ceil_div (the limit) RESULTS_PER_PAGE)
                  else last_page response)
           in case results_loop fetch page_stop response [] 1 [1] of
                None \<Rightarrow> None
              | Some (requested, Inl e) \<Rightarrow> Some (requested, Inl e)
              | Some (requested, Inr results) \<Rightarrow>
                  Some (requested, Inr (if truthy_limit limit then slice_to results (the limit)
                                  else results))))"

text \<open>
  \<^verbatim>\<open>UserInfo._get_people\<close> follows the "next" control: a fetched page gives the people listed
  on it and whether \<^verbatim>\<open>soup.find('a', class_='next')\<close> finds anything. The method takes the
  listing's name and nothing else; it has no limit parameter.
\<close>

record people_page =
  people :: "string list"
  has_next :: bool

partial_function (option) people_loop ::
  "(int \<Rightarrow> exn + people_page) \<Rightarrow> string list \<Rightarrow> int \<Rightarrow> int list
     \<Rightarrow> (int list \<times> (exn + string list)) option" where
  "people_loop fetch results page_num requested =
     (case fetch page_num of
        Inl e \<Rightarrow> Some (requested @ [page_num], Inl e)
      | Inr soup \<Rightarrow>
          if \<not> has_next soup then Some (requested @ [page_num], Inr (results @ people soup))
          else people_loop fetch (results @ people soup) (page_num + 1) (requested @ [page_num]))"

declare people_loop.simps [code]

definition get_people :: "(int \<Rightarrow> exn + people_page) \<Rightarrow> (int list \<times> (exn + string list)) option" where
  "get_people fetch = people_loop fetch [] 1 []"

section \<open>Session and request gateway (session.py)\<close>

text \<open>
  Values of the site's JSON payload, with Python's truth test. A dict is an association list
  in insertion order; \<open>dict_or a b\<close> is \<^verbatim>\<open>a | b\<close> (and \<^verbatim>\<open>a.update(b)\<close>): the keys of \<open>a\<close> keep
  their place, the values of \<open>b\<close> win, new keys are appended.
\<close>

datatype pyval = PNone | PBool bool | PInt int | PStr string | PList "pyval list"

type_synonym pydict = "(string \<times> pyval) list"

fun truthy :: "pyval \<Rightarrow> bool" where
  "truthy PNone = False"
| "truthy (PBool b) = b"
| "truthy (PInt i) = (i \<noteq> 0)"
| "truthy (PStr s) = (s \<noteq> [])"
| "truthy (PList vs) = (vs \<noteq> [])"

definition dict_get :: "pydict \<Rightarrow> string \<Rightarrow> pyval" where
  "dict_get d k = (case map_of d k of None \<Rightarrow> PNone | Some v \<Rightarrow> v)"

definition dict_or :: "('k \<times> 'v) list \<Rightarrow> ('k \<times> 'v) list \<Rightarrow> ('k \<times> 'v) list" where
  "dict_or a b = fold (\<lambda>(k, v). AList.update k v) b a"

text \<open>
  What \<^verbatim>\<open>LetterboxdResponseDict\<close> reads from a \<^verbatim>\<open>requests.Response\<close>: \<open>resp_ok\<close> is
  \<^verbatim>\<open>response.ok\<close> (a transport status below 400); \<open>resp_json\<close> is \<^verbatim>\<open>json.loads(response.text)\<close>
  when the body is a JSON object, else \<open>None\<close>; \<open>body_error\<close> says whether
  \<^verbatim>\<open>soup.find('body', class_='error')\<close> finds a tag. \<open>set_cookie\<close> are the cookies the response
  sets, and \<open>script_logged_in\<close> the usernames for which the logged-in marker of
  \<^verbatim>\<open>logged_in_check\<close> matches the scripts of the page.
\<close>

record response =
  resp_ok :: bool
  resp_json :: "pydict option"
  body_error :: bool
  set_cookie :: "(string \<times> string) list"
  script_logged_in :: "string list"

text \<open>
  \<^verbatim>\<open>_get_letterboxd_errors\<close> returns \<^verbatim>\<open>None\<close> when the body has no \<^verbatim>\<open>error\<close> class. Otherwise it
  evaluates \<^verbatim>\<open>self.soup.find_all('script')\<close>; the object is a dict subclass that never sets an
  attribute \<^verbatim>\<open>soup\<close> (the parsed document is the parameter \<^verbatim>\<open>soup\<close>), so the lookup raises
  \<open>AttributeError\<close> before the pattern \<^verbatim>\<open>'/errors/(\w+)'\<close> is searched.
\<close>

definition get_letterboxd_errors :: "response \<Rightarrow> exn + pyval" where
  "get_letterboxd_errors r = (if \<not> body_error r then Inr PNone else Inl AttributeError)"

text \<open>
  \<^verbatim>\<open>get_letterboxd_response_dict\<close> copies the JSON object (the failed \<^verbatim>\<open>assert\<close> on a missing
  \<^verbatim>\<open>result\<close> is swallowed after the copy), then assigns the key \<^verbatim>\<open>error\<close> from the document
  scan, whatever the JSON object held there.
\<close>

definition get_letterboxd_response_dict :: "response \<Rightarrow> exn + pydict" where
  "get_letterboxd_response_dict r =
     (let letterboxd_response_dict =
            (case resp_json r of None \<Rightarrow> [] | Some j \<Rightarrow> dict_or [] j)
      in case get_letterboxd_errors r of
           Inl e \<Rightarrow> Inl e
         | Inr err \<Rightarrow> Inr (AList.update ''error'' err letterboxd_response_dict))"

definition has_response_dict :: "pydict \<Rightarrow> bool" where
  "has_response_dict d = (\<exists>v \<in> set (map snd d). truthy v)"

definition result :: "pydict \<Rightarrow> pyval" where
  "result d = dict_get d ''result''"

definition error :: "pydict \<Rightarrow> pyval" where
  "error d = dict_get d ''error''"

text \<open>
  \<^verbatim>\<open>self.result not in (True, 'success')\<close> compares with \<^verbatim>\<open>==\<close>, under which \<^verbatim>\<open>1 == True\<close>.
\<close>

definition in_successful_result :: "pyval \<Rightarrow> bool" where
  "in_successful_result v = (v = PBool True \<or> v = PInt 1 \<or> v = PStr ''success'')"

definition ok :: "response \<Rightarrow> pydict \<Rightarrow> bool" where
  "ok r d =
     (if \<not> resp_ok r then False
      else if result d \<noteq> PNone \<and> \<not> in_successful_result (result d) then False
      else \<not> truthy (error d))"

definition raise_for_status :: "response \<Rightarrow> exn + unit" where
  "raise_for_status r = (if resp_ok r then Inr () else Inl HTTPError)"

definition raise_errors :: "response \<Rightarrow> pydict \<Rightarrow> exn + unit" where
  "raise_errors r d =
     (if ok r d then Inr ()
      else if has_response_dict d then
        (if error d = PStr ''not_found'' then Inl PageNotFound
         else if error d = PStr ''forbidden'' then Inl PageForbiddenError
         else Inl LetterboxdError)
      else raise_for_status r)"

definition LetterboxdResponseDict :: "response \<Rightarrow> exn + pydict" where
  "LetterboxdResponseDict r =
     (case get_letterboxd_response_dict r of
        Inl e \<Rightarrow> Inl e
      | Inr d \<Rightarrow> (case raise_errors r d of Inl e \<Rightarrow> Inl e | Inr u \<Rightarrow> Inr d))"

text \<open>
  The session: the credentials (unset until \<^verbatim>\<open>get_credentials\<close> ran) and the cookie jar.
  \<^verbatim>\<open>csrf_token\<close> is a dict with the one key \<^verbatim>\<open>__csrf\<close>, whose value is \<^verbatim>\<open>None\<close> when the jar has no
  such cookie.
\<close>

record credentials =
  username :: string
  password :: string

record session =
  login_credentials :: "credentials option"
  cookies :: "(string \<times> string) list"

definition URL_MAIN :: string where
  "URL_MAIN = ''https://letterboxd.com/''"

definition suburl_login :: string where
  "suburl_login = ''user/login.do/''"

definition suburl_logout :: string where
  "suburl_logout = ''user/logout.do/''"

definition cookie_name_csrf :: string where
  "cookie_name_csrf = ''com.xk72.webparts.csrf''"

definition csrf_token :: "session \<Rightarrow> pydict" where
  "csrf_token s =
     [(''__csrf'', case map_of (cookies s) cookie_name_csrf of None \<Rightarrow> PNone | Some v \<Rightarrow> PStr v)]"

definition make_data :: "session \<Rightarrow> pydict \<Rightarrow> pydict" where
  "make_data s data = (if csrf_token s = [] then data else dict_or (csrf_token s) data)"

text \<open>\<^verbatim>\<open>str.replace(old, new)\<close>: every occurrence, left to right, without overlap.\<close>

fun str_replace :: "string \<Rightarrow> string \<Rightarrow> string \<Rightarrow> string" where
  "str_replace old new [] = (if old = [] then new else [])"
| "str_replace old new (c # cs) =
     (if old = [] then new @ c # str_replace old new cs
      else if prefix old (c # cs) then new @ str_replace old new (drop (length old - 1) cs)
      else c # str_replace old new cs)"

text \<open>
  The transport \<^verbatim>\<open>requests.Session.request\<close> and the site behind it are a parameter: a
  function from what is sent (method, URL, data, the cookies of the jar) to the response, or
  to the exception of a failed connection. \<open>outgoing\<close> is what the overloaded \<^verbatim>\<open>request\<close>
  hands to it. The jar takes the cookies of every response received, before the response is
  classified.
\<close>

record http_request =
  req_method :: string
  req_url :: string
  req_data :: pydict
  req_cookies :: "(string \<times> string) list"

type_synonym site = "http_request \<Rightarrow> exn + response"

definition outgoing :: "session \<Rightarrow> string \<Rightarrow> string \<Rightarrow> pydict \<Rightarrow> http_request" where
  "outgoing s method suburl data =
     \<lparr>req_method = method,
      req_url = URL_MAIN @ str_replace URL_MAIN [] suburl,
      req_data = make_data s data,
      req_cookies = cookies s\<rparr>"

text \<open>
  What the transport writes into the form body of the data it is handed:
  \<^verbatim>\<open>requests\<close>' \<^verbatim>\<open>_encode_params\<close> walks the items in order, takes a list value element by
  element, and skips every value that is \<^verbatim>\<open>None\<close>. The result is the list of fields given to
  \<^verbatim>\<open>urlencode\<close>.
\<close>

definition encode_params :: "pydict \<Rightarrow> (string \<times> pyval) list" where
  "encode_params data =
     concat (map (\<lambda>(k, vs).
        map (Pair k) (filter (\<lambda>v. v \<noteq> PNone) (case vs of PList l \<Rightarrow> l | v \<Rightarrow> [v]))) data)"

definition request_undecorated ::
  "site \<Rightarrow> session \<Rightarrow> string \<Rightarrow> string \<Rightarrow> pydict \<Rightarrow> session \<times> (exn + response)" where
  "request_undecorated site s method suburl data =
     (case site (outgoing s method suburl data) of
        Inl e \<Rightarrow> (s, Inl e)
      | Inr r \<Rightarrow>
          (let s' = s\<lparr>cookies := dict_or (cookies s) (set_cookie r)\<rparr>
           in case LetterboxdResponseDict r of
                Inl e \<Rightarrow> (s', Inl e)
              | Inr d \<Rightarrow> (s', Inr r)))"

text \<open>
  The cache file holds a pickled session or bytes that do not unpickle, and has a
  modification time; the clock is read in seconds. \<^verbatim>\<open>save\<close> overwrites the file (writing is
  taken to succeed). The decorator \<^verbatim>\<open>save_session\<close> runs the function, then saves, then
  returns the result: an exception of the function leaves before the save.
\<close>

datatype cache_content = Corrupt | Pickled session

record world =
  cache_file :: "(cache_content \<times> int) option"
  now :: int

definition save :: "session \<Rightarrow> world \<Rightarrow> world" where
  "save s w = w\<lparr>cache_file := Some (Pickled s, now w)\<rparr>"

definition request ::
  "site \<Rightarrow> session \<times> world \<Rightarrow> string \<Rightarrow> string \<Rightarrow> pydict
     \<Rightarrow> (session \<times> world) \<times> (exn + response)" where
  "request site sw method suburl data =
     (case request_undecorated site (fst sw) method suburl data of
        (s', Inl e) \<Rightarrow> ((s', snd sw), Inl e)
      | (s', Inr r) \<Rightarrow> ((s', save s' (snd sw)), Inr r))"

text \<open>
  \<^verbatim>\<open>logged_in_check\<close> catches \<open>AttributeError\<close> (raised by \<^verbatim>\<open>self.username\<close> when no credentials
  are set, and by anything inside the request) and \<open>PageNotFound\<close>; other exceptions
  propagate. \<^verbatim>\<open>logout\<close> ends in a call of \<^verbatim>\<open>self._raise_lb_response_dict\<close>, a method the class
  does not have.
\<close>

definition logged_in_check :: "site \<Rightarrow> session \<times> world \<Rightarrow> (session \<times> world) \<times> (exn + bool)" where
  "logged_in_check site sw =
     (case login_credentials (fst sw) of
        None \<Rightarrow> (sw, Inr False)
      | Some c \<Rightarrow>
          (case request site sw ''GET'' (username c @ ''/'') [] of
             (sw', Inl AttributeError) \<Rightarrow> (sw', Inr False)
           | (sw', Inl PageNotFound) \<Rightarrow> (sw', Inr False)
           | (sw', Inl e) \<Rightarrow> (sw', Inl e)
           | (sw', Inr r) \<Rightarrow> (sw', Inr (username c \<in> set (script_logged_in r)))))"

definition logout :: "site \<Rightarrow> session \<times> world \<Rightarrow> (session \<times> world) \<times> (exn + unit)" where
  "logout site sw =
     (case logged_in_check site sw of
        (sw', Inl e) \<Rightarrow> (sw', Inl e)
      | (sw', Inr False) \<Rightarrow> (sw', Inr ())
      | (sw', Inr True) \<Rightarrow>
          (case request site sw' ''GET'' suburl_logout [] of
             (sw'', Inl e) \<Rightarrow> (sw'', Inl e)
           | (sw'', Inr r) \<Rightarrow> (sw'', Inl AttributeError)))"

definition get_credentials ::
  "site \<Rightarrow> credentials \<Rightarrow> session \<times> world \<Rightarrow> (session \<times> world) \<times> (exn + unit)" where
  "get_credentials site input sw =
     (case logged_in_check site sw of
        (sw', Inl e) \<Rightarrow> (sw', Inl e)
      | (sw', Inr True) \<Rightarrow>
          (case logout site sw' of
             (sw'', Inl e) \<Rightarrow> (sw'', Inl e)
           | (sw'', Inr u) \<Rightarrow> (((fst sw'')\<lparr>login_credentials := Some input\<rparr>, snd sw''), Inr ()))
      | (sw', Inr False) \<Rightarrow> (((fst sw')\<lparr>login_credentials := Some input\<rparr>, snd sw'), Inr ()))"

definition login :: "site \<Rightarrow> session \<times> world \<Rightarrow> (session \<times> world) \<times> (exn + unit)" where
  "login site sw =
     (case login_credentials (fst sw) of
        None \<Rightarrow> (sw, Inl AttributeError)
      | Some c \<Rightarrow>
          (case request site sw ''POST'' suburl_login
                  [(''username'', PStr (username c)), (''password'', PStr (password c))] of
             (sw', Inl e) \<Rightarrow> (sw', Inl e)
           | (sw', Inr r) \<Rightarrow> (sw', Inr ())))"

text \<open>
  The constructor: credentials from the operator (the parameter \<open>input\<close>), one \<^verbatim>\<open>GET\<close> of the
  home page for the cookies, then the login \<^verbatim>\<open>POST\<close>.
\<close>

definition LunaboxdSession_init :: "site \<Rightarrow> credentials \<Rightarrow> world \<Rightarrow> world \<times> (exn + session)" where
  "LunaboxdSession_init site input w =
     (case get_credentials site input (\<lparr>login_credentials = None, cookies = []\<rparr>, w) of
        (sw1, Inl e) \<Rightarrow> (snd sw1, Inl e)
      | (sw1, Inr u) \<Rightarrow>
          (case request site sw1 ''GET'' '''' [] of
             (sw2, Inl e) \<Rightarrow> (snd sw2, Inl e)
           | (sw2, Inr r) \<Rightarrow>
               (case login site sw2 of
                  (sw3, Inl e) \<Rightarrow> (snd sw3, Inl e)
                | (sw3, Inr u') \<Rightarrow> (snd sw3, Inr (fst sw3)))))"

text \<open>
  \<^verbatim>\<open>load\<close>: a missing file gives a new session; any other failure of \<^verbatim>\<open>pickle.load\<close> is
  re-raised (\<^verbatim>\<open>except: raise\<close>). \<open>one_hour_ago\<close> is computed before the unpickled session is
  checked.
\<close>

definition file_updated_after :: "world \<Rightarrow> int \<Rightarrow> bool" where
  "file_updated_after w t = (case cache_file w of None \<Rightarrow> False | Some (c, mtime) \<Rightarrow> mtime > t)"

definition load :: "site \<Rightarrow> credentials \<Rightarrow> world \<Rightarrow> world \<times> (exn + session)" where
  "load site input w =
     (case cache_file w of
        None \<Rightarrow> LunaboxdSession_init site input w
      | Some (Corrupt, t) \<Rightarrow> (w, Inl UnpicklingError)
      | Some (Pickled session_unpickled, t) \<Rightarrow>
          (let one_hour_ago = now w - 3600
           in case logged_in_check site (session_unpickled, w) of
                (sw', Inl e) \<Rightarrow> (snd sw', Inl e)
              | (sw', Inr v) \<Rightarrow>
                  if \<not> v \<or> \<not> file_updated_after (snd sw') one_hour_ago
                  then LunaboxdSession_init site input (snd sw')
                  else (snd sw', Inr (fst sw'))))"

section \<open>Example inputs\<close>

text \<open>
  A search listing of two full pages, a relationship listing of three pages, and a small
  site: the home page sets the anti-forgery cookie, the login sets a session cookie, the
  profile of \<open>alice\<close> shows the logged-in marker to that session cookie only, and every other
  path answers with a failed transport status and no payload.
\<close>

definition two_pages :: "int \<Rightarrow> exn + (int \<times> nat) search_page" where
  "two_pages p =
     (if p = 1 \<or> p = 2 then Inr \<lparr>last_page = 2, results_on_page = map (Pair p) [0..<20]\<rparr>
      else Inl PageNotFound)"

definition three_pages :: "int \<Rightarrow> exn + people_page" where
  "three_pages p =
     (if p = 1 then Inr \<lparr>people = [''ann'', ''bob''], has_next = True\<rparr>
      else if p = 2 then Inr \<lparr>people = [''cat''], has_next = True\<rparr>
      else if p = 3 then Inr \<lparr>people = [''dan'', ''eve''], has_next = False\<rparr>
      else Inl PageNotFound)"

definition page :: "(string \<times> string) list \<Rightarrow> string list \<Rightarrow> response" where
  "page cs users =
     \<lparr>resp_ok = True, resp_json = None, body_error = False, set_cookie = cs,
      script_logged_in = users\<rparr>"

definition demo_site :: site where
  "demo_site rq =
     (if req_url rq = URL_MAIN then Inr (page [(cookie_name_csrf, ''t0'')] [])
      else if req_url rq = URL_MAIN @ suburl_login then
        Inr ((page [(''sid'', ''1'')] [])\<lparr>resp_json := Some [(''result'', PStr ''success'')]\<rparr>)
      else if req_url rq = URL_MAIN @ ''alice/'' then
        Inr (page [(''seen'', ''1'')] (if map_of (req_cookies rq) ''sid'' = Some ''1'' then [''alice''] else []))
      else Inr ((page [(''seen'', ''2'')] [])\<lparr>resp_ok := False\<rparr>))"

definition alice :: credentials where
  "alice = \<lparr>username = ''alice'', password = ''pw''\<rparr>"

definition forbidden_200 :: response where
  "forbidden_200 =
     \<lparr>resp_ok = True,
      resp_json = Some [(''result'', PStr ''error''), (''error'', PStr ''forbidden'')],
      body_error = False, set_cookie = [], script_logged_in = []\<rparr>"

definition blank :: session where
  "blank = \<lparr>login_credentials = Some alice, cookies = []\<rparr>"

definition no_cache :: world where
  "no_cache = \<lparr>cache_file = None, now = 10000\<rparr>"

definition fresh :: session where
  "fresh = \<lparr>login_credentials = Some alice,
            cookies = [(cookie_name_csrf, ''t0''), (''sid'', ''1'')]\<rparr>"

definition logged_out :: session where
  "logged_out = \<lparr>login_credentials = Some alice, cookies = [(''sid'', ''0'')]\<rparr>"

definition corrupt_cache :: world where
  "corrupt_cache = \<lparr>cache_file = Some (Corrupt, 9000), now = 10000\<rparr>"

definition logged_out_cache :: world where
  "logged_out_cache = \<lparr>cache_file = Some (Pickled logged_out, 9000), now = 10000\<rparr>"

section \<open>Properties\<close>

subsection \<open>True mean\<close>

text \<open>
  C7. For every rating histogram, the true mean is undefined (\<open>None\<close>, not zero) when the
  total count is zero, and otherwise it is the sum over the scores of score times count,
  divided by the total count and multiplied by one half; the histogram \<open>{10: 1}\<close> has true
  mean exactly 5.
\<close>

theorem rating_true_spec:
  "(ratings_number_of h = 0 \<longrightarrow> rating_true h = None) \<and>
   (ratings_number_of h \<noteq> 0 \<longrightarrow>
      rating_true h =
        Some (of_int (\<Sum>(s, q)\<leftarrow>h. s * q) / of_int (\<Sum>(s, q)\<leftarrow>h. q) * (1 / 2))) \<and>
   rating_true [(10, 1)] = Some 5"
proof -
  have snd_eq: "map snd h = map (\<lambda>(s, q). q) h"
    by (induction h) auto
  show ?thesis
    by (simp add: rating_true_def ratings_total_score_def ratings_number_of_def snd_eq)
qed

theorem rating_true_spec_witness:
  "rating_true [(1, 0), (10, 0)] = None \<and>
   rating_true [(4, 1), (6, 3)] = Some (11 / 4)"
  using rating_true_spec [of "[(1, 0), (10, 0)]"] rating_true_spec [of "[(4, 1), (6, 3)]"]
  by (simp add: ratings_number_of_def)

subsection \<open>Ironic ratings\<close>

lemma foldl_max_in: "foldl (\<lambda>m y. if tuple_less m y then y else m) x xs \<in> set (x # xs)"
  by (induction xs arbitrary: x) auto

lemma tuple_less_trans: "tuple_less a b \<Longrightarrow> tuple_less b c \<Longrightarrow> tuple_less a c"
  by (auto simp: tuple_less_def)

lemma tuple_less_total: "\<not> tuple_less a b \<Longrightarrow> \<not> tuple_less b a \<Longrightarrow> a = b"
  by (auto simp: tuple_less_def prod_eq_iff)

lemma foldl_max_ge_start:
  "\<not> tuple_less (foldl (\<lambda>m y. if tuple_less m y then y else m) x xs) x"
proof (induction xs arbitrary: x)
  case Nil
  show ?case by (simp add: tuple_less_def)
next
  case (Cons y ys)
  show ?case
  proof (cases "tuple_less x y")
    case True
    have "\<not> tuple_less (foldl (\<lambda>m y. if tuple_less m y then y else m) y ys) y"
      by (rule Cons.IH)
    with True show ?thesis
      using tuple_less_trans by (auto simp: tuple_less_def)
  next
    case False
    with Cons.IH [of x] show ?thesis by simp
  qed
qed

lemma foldl_max_greatest:
  "z \<in> set (x # xs) \<Longrightarrow> \<not> tuple_less (foldl (\<lambda>m y. if tuple_less m y then y else m) x xs) z"
proof (induction xs arbitrary: x)
  case Nil
  then show ?case by (simp add: tuple_less_def)
next
  case (Cons y ys)
  let ?f = "\<lambda>m y. if tuple_less m y then y else m"
  show ?case
  proof (cases "tuple_less x y")
    case True
    then have step: "foldl ?f x (y # ys) = foldl ?f y ys" by simp
    from Cons.prems consider "z = x" | "z \<in> set (y # ys)" by auto
    then show ?thesis
    proof cases
      case 1
      have "\<not> tuple_less (foldl ?f y ys) y" by (rule foldl_max_ge_start)
      with True 1 show ?thesis
        unfolding step by (auto simp: tuple_less_def)
    next
      case 2
      then show ?thesis unfolding step by (rule Cons.IH)
    qed
  next
    case False
    then have step: "foldl ?f x (y # ys) = foldl ?f x ys" by simp
    from Cons.prems consider "z = y" | "z \<in> set (x # ys)" by auto
    then show ?thesis
    proof cases
      case 1
      have "\<not> tuple_less (foldl ?f x ys) x" by (rule foldl_max_ge_start)
      with False 1 show ?thesis
        unfolding step by (auto simp: tuple_less_def)
    next
      case 2
      then show ?thesis unfolding step by (rule Cons.IH)
    qed
  qed
qed

lemma py_max_iff:
  "py_max zs = Some m \<longleftrightarrow> m \<in> set zs \<and> (\<forall>z \<in> set zs. \<not> tuple_less m z)"
proof (cases zs)
  case Nil
  then show ?thesis by simp
next
  case (Cons x xs)
  let ?r = "foldl (\<lambda>m y. if tuple_less m y then y else m) x xs"
  have r: "?r \<in> set zs" "\<forall>z \<in> set zs. \<not> tuple_less ?r z"
    unfolding Cons using foldl_max_in foldl_max_greatest by blast+
  show ?thesis
  proof
    assume "py_max zs = Some m"
    with Cons have "m = ?r" by simp
    with r show "m \<in> set zs \<and> (\<forall>z \<in> set zs. \<not> tuple_less m z)" by simp
  next
    assume m: "m \<in> set zs \<and> (\<forall>z \<in> set zs. \<not> tuple_less m z)"
    with r have "\<not> tuple_less m ?r" "\<not> tuple_less ?r m" by auto
    then have "m = ?r" by (rule tuple_less_total)
    with Cons show "py_max zs = Some m" by simp
  qed
qed

lemma zip_values_keys: "set (zip (map snd d) (map fst d)) = (\<lambda>(k, c). (c, k)) ` set d"
  by (induction d) auto

lemma max_key_iff:
  "max_key d = Inr k \<longleftrightarrow>
     (\<exists>c. (k, c) \<in> set d \<and> (\<forall>(k', c') \<in> set d. c' < c \<or> (c' = c \<and> k' \<le> k)))"
proof -
  have "max_key d = Inr k \<longleftrightarrow> (\<exists>c. py_max (zip (map snd d) (map fst d)) = Some (c, k))"
    by (auto simp: max_key_def split: option.splits)
  also have "\<dots> \<longleftrightarrow> (\<exists>c. (k, c) \<in> set d \<and> (\<forall>(k', c') \<in> set d. \<not> tuple_less (c, k) (c', k')))"
    unfolding py_max_iff zip_values_keys by (rule ex_cong1) force
  also have "\<dots> \<longleftrightarrow> (\<exists>c. (k, c) \<in> set d \<and> (\<forall>(k', c') \<in> set d. c' < c \<or> (c' = c \<and> k' \<le> k)))"
    by (rule ex_cong1) (auto simp: tuple_less_def)
  finally show ?thesis .
qed

lemma max_key_total: "d \<noteq> [] \<Longrightarrow> \<exists>k. max_key d = Inr k"
  by (cases d) (auto simp: max_key_def)

lemma max_key_greatest:
  "(k, c) \<in> set d \<Longrightarrow> (\<And>k' c'. (k', c') \<in> set d \<Longrightarrow> c' < c \<or> (c' = c \<and> k' \<le> k)) \<Longrightarrow>
   max_key d = Inr k"
  unfolding max_key_iff by blast

lemma key_max_first:
  "d \<noteq> [] \<Longrightarrow> key_max d 1 False =
     (case max_key d of Inl e \<Rightarrow> Inl e | Inr m \<Rightarrow> Inr (Key m))"
  by (cases d) (simp_all add: key_max_def split: sum.splits)

lemma key_max_second:
  "2 \<le> length d \<Longrightarrow> key_max d 2 False =
     (case max_key d of
        Inl e \<Rightarrow> Inl e
      | Inr a \<Rightarrow>
          (case max_key (AList.delete a d) of Inl e \<Rightarrow> Inl e | Inr b \<Rightarrow> Inr (Key b)))"
  by (simp add: key_max_def numeral_2_eq_2 split: sum.splits)

lemma set_delete: "set (AList.delete a d) = {(k, c). (k, c) \<in> set d \<and> k \<noteq> a}"
  by (auto simp: AList.delete_eq)

text \<open>
  C8, as amended. The claim reads "the two most frequent scores" with the specification's
  tie-break (first seen at the maximum, in key order); the code takes the maximum of
  \<open>(count, score)\<close> tuples, so among equal counts the larger score wins. On a histogram with
  distinct keys in 1..10 that holds the scores 1 and 10, \<^verbatim>\<open>rating_ironic\<close> raises nothing and
  is true exactly when score 1 has strictly more ratings than every score between the
  extremes, score 10 has at least as many as every such score, and both have at least 3.
  The two examples of the claim come out as stated: \<open>{1:5, 10:5, 5:1}\<close> is ironic and
  \<open>{1:2, 10:5, 5:1}\<close> is not.
\<close>

theorem rating_ironic_extremes:
  assumes dist: "distinct (map fst h)"
    and c1: "map_of h 1 = Some c1"
    and c10: "map_of h 10 = Some c10"
    and range: "\<forall>k \<in> set (map fst h). 1 \<le> k \<and> k \<le> 10"
  shows "rating_ironic h =
     Inr ((\<forall>(k, c) \<in> set h. k \<noteq> 1 \<and> k \<noteq> 10 \<longrightarrow> c < c1 \<and> c \<le> c10) \<and> 3 \<le> c1 \<and> 3 \<le> c10)"
proof -
  let ?P = "\<forall>(k, c) \<in> set h. k \<noteq> 1 \<and> k \<noteq> 10 \<longrightarrow> c < c1 \<and> c \<le> c10"
  have m1: "(1, c1) \<in> set h" and m10: "(10, c10) \<in> set h"
    using c1 c10 by (auto dest: map_of_SomeD)
  have u1: "c = c1" if "(1, c) \<in> set h" for c
    using that dist c1 by simp
  have u10: "c = c10" if "(10, c) \<in> set h" for c
    using that dist c10 by simp
  have rng: "1 \<le> k \<and> k \<le> 10" if "(k, c) \<in> set h" for k c
    using that range by force
  have "card {(1 :: int, c1), (10, c10)} \<le> card (set h)"
    using m1 m10 by (intro card_mono) auto
  also have "\<dots> \<le> length h"
    by (rule card_length)
  finally have len: "2 \<le> length h"
    by simp
  then have ne: "h \<noteq> []"
    by auto
  obtain a where a: "max_key h = Inr a"
    using max_key_total [OF ne] by blast
  have "AList.delete a h \<noteq> []"
  proof (cases "a = 1")
    case True
    with m10 have "(10, c10) \<in> set (AList.delete a h)" by (simp add: set_delete)
    then show ?thesis by auto
  next
    case False
    with m1 have "(1, c1) \<in> set (AList.delete a h)" by (simp add: set_delete)
    then show ?thesis by auto
  qed
  then obtain b where b: "max_key (AList.delete a h) = Inr b"
    using max_key_total by blast
  have ri: "rating_ironic h = Inr (sort [a, b] = [1, 10] \<and> 3 \<le> c1 \<and> 3 \<le> c10)"
    by (simp add: rating_ironic_def key_max_first [OF ne] key_max_second [OF len] a b c1 c10)
  have sorted: "sort [a, b] = [1, 10] \<longleftrightarrow> (a = 1 \<and> b = 10) \<or> (a = 10 \<and> b = 1)"
    by auto
  have "(a = 1 \<and> b = 10) \<or> (a = 10 \<and> b = 1) \<longleftrightarrow> ?P"
  proof
    assume "(a = 1 \<and> b = 10) \<or> (a = 10 \<and> b = 1)"
    then show ?P
    proof
      assume ab: "a = 1 \<and> b = 10"
      from a ab obtain c where
        A: "(1, c) \<in> set h" "\<forall>(k', c') \<in> set h. c' < c \<or> (c' = c \<and> k' \<le> 1)"
        unfolding max_key_iff by blast
      from b ab obtain c' where
        B: "(10, c') \<in> set (AList.delete 1 h)"
           "\<forall>(k', c'') \<in> set (AList.delete 1 h). c'' < c' \<or> (c'' = c' \<and> k' \<le> 10)"
        unfolding max_key_iff by blast
      have "c = c1" using A(1) by (rule u1)
      moreover have "c' = c10" using B(1) by (auto simp: set_delete intro: u10)
      ultimately show ?P
        using A(2) B(2) rng by (fastforce simp: set_delete)
    next
      assume ab: "a = 10 \<and> b = 1"
      from a ab obtain c where
        A: "(10, c) \<in> set h" "\<forall>(k', c') \<in> set h. c' < c \<or> (c' = c \<and> k' \<le> 10)"
        unfolding max_key_iff by blast
      from b ab obtain c' where
        B: "(1, c') \<in> set (AList.delete 10 h)"
           "\<forall>(k', c'') \<in> set (AList.delete 10 h). c'' < c' \<or> (c'' = c' \<and> k' \<le> 1)"
        unfolding max_key_iff by blast
      have "c = c10" using A(1) by (rule u10)
      moreover have "c' = c1" using B(1) by (auto simp: set_delete intro: u1)
      ultimately show ?P
        using A(2) B(2) rng by (fastforce simp: set_delete)
    qed
  next
    assume P: ?P
    show "(a = 1 \<and> b = 10) \<or> (a = 10 \<and> b = 1)"
    proof (cases "c10 < c1")
      case True
      have "max_key h = Inr 1"
      proof (rule max_key_greatest [OF m1])
        fix k' c' assume in_h: "(k', c') \<in> set h"
        show "c' < c1 \<or> (c' = c1 \<and> k' \<le> 1)"
          using in_h P True u1 u10 by (cases "k' = 1"; cases "k' = 10") auto
      qed
      with a have a1: "a = 1" by simp
      have "max_key (AList.delete 1 h) = Inr 10"
      proof (rule max_key_greatest)
        show "(10, c10) \<in> set (AList.delete 1 h)"
          using m10 by (simp add: set_delete)
      next
        fix k' c' assume "(k', c') \<in> set (AList.delete 1 h)"
        then have in_h: "(k', c') \<in> set h" "k' \<noteq> 1" by (auto simp: set_delete)
        show "c' < c10 \<or> (c' = c10 \<and> k' \<le> 10)"
          using in_h P u10 rng [OF in_h(1)] by (cases "k' = 10") auto
      qed
      with b a1 have "b = 10" by simp
      with a1 show ?thesis by simp
    next
      case False
      have "max_key h = Inr 10"
      proof (rule max_key_greatest [OF m10])
        fix k' c' assume in_h: "(k', c') \<in> set h"
        show "c' < c10 \<or> (c' = c10 \<and> k' \<le> 10)"
          using in_h P False u1 u10 rng [OF in_h] by (cases "k' = 1"; cases "k' = 10") auto
      qed
      with a have a10: "a = 10" by simp
      have "max_key (AList.delete 10 h) = Inr 1"
      proof (rule max_key_greatest)
        show "(1, c1) \<in> set (AList.delete 10 h)"
          using m1 by (simp add: set_delete)
      next
        fix k' c' assume "(k', c') \<in> set (AList.delete 10 h)"
        then have in_h: "(k', c') \<in> set h" "k' \<noteq> 10" by (auto simp: set_delete)
        show "c' < c1 \<or> (c' = c1 \<and> k' \<le> 1)"
          using in_h P u1 by (cases "k' = 1") auto
      qed
      with b a10 have "b = 1" by simp
      with a10 show ?thesis by simp
    qed
  qed
  with ri sorted show ?thesis
    by simp
qed

theorem rating_ironic_extremes_witness:
  "rating_ironic [(1, 5), (10, 5), (5, 1)] = Inr True \<and>
   rating_ironic [(1, 2), (10, 5), (5, 1)] = Inr False"
  using rating_ironic_extremes [of "[(1, 5), (10, 5), (5, 1)]" 5 5]
    rating_ironic_extremes [of "[(1, 2), (10, 5), (5, 1)]" 2 5]
  by simp

text \<open>
  The claim with the specification's tie-break fails on the code: in the histogram below
  scores 1 and 2 tie for the second place behind score 10. First seen at the maximum gives
  the pair 10 and 1, the code's tuple maximum gives 10 and 2.
\<close>

theorem rating_ironic_tie_counterexample:
  "spec_isIronic
     [(1, 5), (2, 5), (3, 0), (4, 0), (5, 0), (6, 0), (7, 0), (8, 0), (9, 0), (10, 9)] 3 \<and>
   rating_ironic
     [(1, 5), (2, 5), (3, 0), (4, 0), (5, 0), (6, 0), (7, 0), (8, 0), (9, 0), (10, 9)] = Inr False"
  by code_simp

subsection \<open>Bayesian average\<close>

lemma weighted_counts_find:
  "weighted_counts d w ns =
     (case find (\<lambda>n. map_of d n = None) ns of
        Some n \<Rightarrow> Inl (KeyError n)
      | None \<Rightarrow> Inr (map (\<lambda>n. of_int (the (map_of d n)) * w n) ns))"
  by (induction ns) (auto split: option.splits)

text \<open>
  C9, as amended. A histogram with some non-zero count is not completed with zeros: the
  function looks up every score of 1..10 and fails with \<open>KeyError\<close> on the smallest absent
  one. Only when all ten scores are present (as the callers build the histogram, with
  explicit zero counts) does it return the rescaled percent point of the Beta distribution
  with parameters \<open>up + a0\<close> and \<open>down + a0\<close>.
\<close>

theorem get_bayesian_average_keys:
  assumes "d \<noteq> []" and "\<exists>c \<in> set (map snd d). c \<noteq> 0"
  shows "get_bayesian_average d fallback a0 =
     (case find (\<lambda>n. map_of d n = None) [1..10] of
        Some n \<Rightarrow> Inl (KeyError n)
      | None \<Rightarrow>
          Inr (Beta_ppf_rescaled (1 / 20)
                 ((\<Sum>n\<leftarrow>[1..10]. of_int (the (map_of d n)) * ((of_int n - 1) / 9)) + a0)
                 ((\<Sum>n\<leftarrow>[1..10]. of_int (the (map_of d n)) * ((9 - (of_int n - 1)) / 9)) + a0)))"
  using assms
  by (simp add: get_bayesian_average_def weighted_counts_find split: option.splits)

theorem get_bayesian_average_keys_witness:
  "get_bayesian_average [(10, 1)] None 9 = Inl (KeyError 1) \<and>
   get_bayesian_average [(1, 0), (2, 0), (3, 0), (4, 0), (5, 0), (6, 0), (7, 0), (8, 0), (9, 0), (10, 1)]
      None 9 = Inr (Beta_ppf_rescaled (1 / 20) 10 9)"
proof -
  have a: "get_bayesian_average [(10, 1)] None 9 = Inl (KeyError 1)"
    using get_bayesian_average_keys [of "[(10, 1)]" None 9]
    by (simp add: upto_rec1)
  have b: "get_bayesian_average
      [(1, 0), (2, 0), (3, 0), (4, 0), (5, 0), (6, 0), (7, 0), (8, 0), (9, 0), (10, 1)]
      None 9 = Inr (Beta_ppf_rescaled (1 / 20) 10 9)"
    using get_bayesian_average_keys
      [of "[(1, 0), (2, 0), (3, 0), (4, 0), (5, 0), (6, 0), (7, 0), (8, 0), (9, 0), (10, 1)]" None 9]
    by (simp add: upto_rec1)
  from a b show ?thesis by simp
qed

text \<open>
  The claim as stated fails at the histogram \<open>{10: 1}\<close>: the code raises \<open>KeyError\<close> for
  score 1, where the completed histogram gives a value.
\<close>

theorem get_bayesian_average_missing_key_counterexample:
  "get_bayesian_average [(10, 1)] None 9 = Inl (KeyError 1) \<and>
   get_bayesian_average [(10, 1)] None 9 \<noteq>
   get_bayesian_average
     [(1, 0), (2, 0), (3, 0), (4, 0), (5, 0), (6, 0), (7, 0), (8, 0), (9, 0), (10, 1)] None 9"
  by (simp add: get_bayesian_average_def upto_rec1)

subsection \<open>Star ratings\<close>

lemma ratings_range_list:
  "RATINGS_RANGE = [1 / 2, 1, 3 / 2, 2, 5 / 2, 3, 7 / 2, 4, 9 / 2, 5]"
  unfolding RATINGS_RANGE_def by code_simp

lemma dropWhile_none: "\<forall>x \<in> set xs. \<not> P x \<Longrightarrow> dropWhile P xs = xs"
  by (cases xs) auto

lemma strip_no_space: "\<forall>c \<in> set s. \<not> isspace c \<Longrightarrow> strip s = s"
  by (simp add: strip_def dropWhile_none)

lemma count_list_replicate: "count_list (replicate n x) y = (if x = y then n else 0)"
  by (induction n) auto

lemma star_not_space: "\<not> isspace RATING_STAR" "\<not> isspace RATING_HALF"
  by (simp_all add: isspace_def RATING_STAR_def RATING_HALF_def)

lemma star_neq_half: "RATING_STAR \<noteq> RATING_HALF"
  by (simp add: RATING_STAR_def RATING_HALF_def)

lemma stars_not_half_only:
  "replicate a RATING_STAR @ replicate b RATING_HALF \<noteq> RATING_HALF_ONLY"
proof
  assume eq: "replicate a RATING_STAR @ replicate b RATING_HALF = RATING_HALF_ONLY"
  have "104 \<in> set RATING_HALF_ONLY"
    by (simp add: RATING_HALF_ONLY_def)
  with eq have "104 \<in> set (replicate a RATING_STAR @ replicate b RATING_HALF)"
    by simp
  then show False
    by (auto simp: RATING_STAR_def RATING_HALF_def)
qed

lemma num_to_star_rating_units:
  assumes "2 \<le> k" "k \<le> 10"
  shows "num_to_star_rating (of_int k / 2) =
           Inr (replicate (nat (k div 2)) RATING_STAR @ replicate (nat (k mod 2)) RATING_HALF)"
proof -
  have "(of_int k :: rat) / 2 \<noteq> 1 / 2"
    using assms by simp
  moreover have "py_int (of_int k / 2 * 2) = k"
    using assms by (simp add: py_int_def)
  ultimately show ?thesis
    using assms by (simp add: num_to_star_rating_def Let_def)
qed

lemma star_rating_to_num_units:
  assumes "1 \<le> 2 * a + b" "2 * a + b \<le> 10"
  shows "star_rating_to_num (replicate a RATING_STAR @ replicate b RATING_HALF) =
           Inr (of_nat a + (1 / 2) * of_nat b)"
proof -
  let ?s = "replicate a RATING_STAR @ replicate b RATING_HALF"
  have s: "strip ?s = ?s"
    by (rule strip_no_space) (auto simp: star_not_space)
  have f: "filter (\<lambda>c. c \<noteq> RATING_STAR \<and> c \<noteq> RATING_HALF) ?s = []"
    by (auto simp: filter_empty_conv)
  have c: "count_list ?s RATING_STAR = a" "count_list ?s RATING_HALF = b"
    using star_neq_half by (auto simp: count_list_replicate)
  have "(of_nat a + (1 / 2) * of_nat b) * 2 = (of_int (int (2 * a + b)) :: rat)"
    by (simp add: algebra_simps)
  moreover have "int (2 * a + b) \<in> {1..10}"
    using assms by auto
  ultimately have m: "(of_nat a + (1 / 2) * of_nat b) * 2 \<in> set (map rat_of_int [1..10])"
    by (metis image_eqI set_map set_upto)
  show ?thesis
    unfolding star_rating_to_num_def Let_def s f c
    using m stars_not_half_only by simp
qed

text \<open>
  C10. Star-rating round trip: for every valid rating value in \<open>{0.5, 1.0, \<dots>, 5.0}\<close>
  (the values of \<open>RATINGS_RANGE\<close>), \<^verbatim>\<open>num_to_star_rating\<close> returns a star string without
  raising, and \<^verbatim>\<open>star_rating_to_num\<close> maps that string back to the same value without
  raising; the value 0.5 is written as the single-half-star form \<open>RATING_HALF_ONLY\<close>, which
  maps back to 0.5.
\<close>

theorem star_rating_round_trip:
  "(\<forall>x \<in> set RATINGS_RANGE.
      \<exists>s. num_to_star_rating x = Inr s \<and> star_rating_to_num s = Inr x) \<and>
   set RATINGS_RANGE = {1 / 2, 1, 3 / 2, 2, 5 / 2, 3, 7 / 2, 4, 9 / 2, 5} \<and>
   num_to_star_rating (1 / 2) = Inr RATING_HALF_ONLY \<and>
   star_rating_to_num RATING_HALF_ONLY = Inr (1 / 2)"
proof -
  have half: "num_to_star_rating (1 / 2) = Inr RATING_HALF_ONLY"
    "star_rating_to_num RATING_HALF_ONLY = Inr (1 / 2)"
    by (simp_all add: num_to_star_rating_def star_rating_to_num_def)
  have "\<exists>s. num_to_star_rating x = Inr s \<and> star_rating_to_num s = Inr x"
    if "x \<in> set RATINGS_RANGE" for x
  proof -
    from that obtain k where k: "x = of_int k / 2" "1 \<le> k" "k \<le> 10"
      by (auto simp: RATINGS_RANGE_def)
    show ?thesis
    proof (cases "k = 1")
      case True
      with k(1) have x: "x = 1 / 2" by simp
      show ?thesis unfolding x using half by blast
    next
      case False
      with k have k2: "2 \<le> k" by simp
      let ?a = "nat (k div 2)" and ?b = "nat (k mod 2)"
      have sum: "int (2 * ?a + ?b) = k"
        using k2 by simp
      then have "1 \<le> 2 * ?a + ?b" "2 * ?a + ?b \<le> 10"
        using k by linarith+
      then have s2n: "star_rating_to_num (replicate ?a RATING_STAR @ replicate ?b RATING_HALF) =
                   Inr (of_nat ?a + (1 / 2) * of_nat ?b)"
        by (rule star_rating_to_num_units)
      have val: "(of_nat ?a + (1 / 2) * of_nat ?b :: rat) = of_int k / 2"
      proof -
        have "(of_int k :: rat) = of_int (int (2 * ?a + ?b))"
          using sum by simp
        also have "\<dots> = 2 * of_nat ?a + of_nat ?b"
          by simp
        finally show ?thesis by simp
      qed
      have "star_rating_to_num (replicate ?a RATING_STAR @ replicate ?b RATING_HALF) =
              Inr (of_int k / 2)"
        by (simp only: s2n val)
      then show ?thesis
        unfolding k(1) using num_to_star_rating_units [OF k2 k(3)] by blast
    qed
  qed
  moreover have "set RATINGS_RANGE = {1 / 2, 1, 3 / 2, 2, 5 / 2, 3, 7 / 2, 4, 9 / 2, 5}"
    by (simp add: ratings_range_list)
  ultimately show ?thesis
    using half by blast
qed

theorem star_rating_round_trip_witness:
  "num_to_star_rating (7 / 2) = Inr [RATING_STAR, RATING_STAR, RATING_STAR, RATING_HALF] \<and>
   star_rating_to_num [RATING_STAR, RATING_STAR, RATING_STAR, RATING_HALF] = Inr (7 / 2)"
proof -
  have "(7 / 2 :: rat) \<in> set RATINGS_RANGE"
    by (simp add: ratings_range_list)
  with star_rating_round_trip obtain s where
    s: "num_to_star_rating (7 / 2) = Inr s" "star_rating_to_num s = Inr (7 / 2)"
    by blast
  have "num_to_star_rating (7 / 2) = Inr [RATING_STAR, RATING_STAR, RATING_STAR, RATING_HALF]"
    by (simp add: num_to_star_rating_def py_int_def Let_def eval_nat_numeral)
  with s show ?thesis by simp
qed

subsection \<open>Response classification\<close>

lemmas classify_defs =
  LetterboxdResponseDict_def get_letterboxd_response_dict_def get_letterboxd_errors_def
  raise_errors_def raise_for_status_def ok_def has_response_dict_def error_def result_def
  dict_get_def in_successful_result_def dict_or_def

lemmas gateway_defs =
  request_def request_undecorated_def outgoing_def make_data_def csrf_token_def save_def
  URL_MAIN_def suburl_login_def suburl_logout_def cookie_name_csrf_def

lemmas demo_defs = demo_site_def page_def alice_def

lemma error_is_none:
  "get_letterboxd_response_dict r = Inr d \<Longrightarrow> error d = PNone"
  by (auto simp: get_letterboxd_response_dict_def get_letterboxd_errors_def error_def
      dict_get_def update_conv' Let_def split: if_splits)

lemma never_forbidden: "LetterboxdResponseDict r \<noteq> Inl PageForbiddenError"
proof (cases "get_letterboxd_response_dict r")
  case (Inl e)
  then have "e = AttributeError"
    by (auto simp: get_letterboxd_response_dict_def get_letterboxd_errors_def Let_def
        split: if_splits)
  with Inl show ?thesis
    by (simp add: LetterboxdResponseDict_def)
next
  case (Inr d)
  then have "error d = PNone" by (rule error_is_none)
  with Inr show ?thesis
    by (auto simp: LetterboxdResponseDict_def raise_errors_def raise_for_status_def
        split: sum.splits if_splits)
qed

lemma ok_false_if_error: "truthy (error d) \<Longrightarrow> \<not> ok r d"
  by (simp add: ok_def)

text \<open>
  C1. The claim: a response classified with a site-reported error code is never successful,
  and a response with transport status 200 whose payload is
  \<^verbatim>\<open>{"result": "error", "error": "forbidden"}\<close> is classified as failed and raises
  \<open>PageForbiddenError\<close>. On that response the code does classify as failed, but it raises the
  generic \<open>LetterboxdError\<close>: the error code of the payload is overwritten by the document
  scan, which finds nothing in a JSON body. A page that carries the error class on its body
  does not reach the pattern either: the scan raises \<open>AttributeError\<close>.
\<close>

theorem forbidden_payload_raises_generic_error:
  "LetterboxdResponseDict forbidden_200 = Inl LetterboxdError \<and>
   LetterboxdResponseDict (forbidden_200\<lparr>body_error := True\<rparr>) = Inl AttributeError"
  by (simp add: LetterboxdResponseDict_def forbidden_200_def get_letterboxd_response_dict_def
      get_letterboxd_errors_def dict_or_def raise_errors_def ok_def result_def error_def
      dict_get_def has_response_dict_def in_successful_result_def)

subsection \<open>Request gateway\<close>

text \<open>
  The path: an origin at the start of the path is removed before the origin is prefixed, so a
  path is resolved to the same URL with or without it.
\<close>

lemma str_replace_at_start:
  "old \<noteq> [] \<Longrightarrow> str_replace old new (old @ p) = new @ str_replace old new p"
  by (cases old) simp_all

lemma outgoing_strips_origin:
  "req_url (outgoing s method (URL_MAIN @ p) data) = req_url (outgoing s method p data)"
proof -
  have "URL_MAIN \<noteq> []"
    by (simp add: URL_MAIN_def)
  then show ?thesis
    by (simp add: outgoing_def str_replace_at_start)
qed

lemma outgoing_resolves_path:
  "req_url (outgoing s method ''film/x/'' data) = ''https://letterboxd.com/film/x/''"
  by (simp add: outgoing_def URL_MAIN_def)

lemma make_data_merges: "make_data s data = dict_or (csrf_token s) data"
  by (simp add: make_data_def csrf_token_def)

lemma update_absent: "k \<notin> fst ` set a \<Longrightarrow> AList.update k v a = a @ [(k, v)]"
  by (induction a) auto

lemma dict_or_disjoint:
  "distinct (map fst b) \<Longrightarrow> fst ` set a \<inter> fst ` set b = {} \<Longrightarrow> dict_or a b = a @ b"
proof (induction b arbitrary: a)
  case Nil
  then show ?case by (simp add: dict_or_def)
next
  case (Cons x b)
  obtain k v where x: "x = (k, v)" by (cases x)
  from Cons.prems x have absent: "k \<notin> fst ` set a" by auto
  have "dict_or a (x # b) = dict_or (AList.update k v a) b"
    by (simp add: dict_or_def x)
  also have "\<dots> = dict_or (a @ [(k, v)]) b"
    using absent by (simp add: update_absent)
  also have "\<dots> = (a @ [(k, v)]) @ b"
    using Cons.prems x by (intro Cons.IH) auto
  finally show ?case by (simp add: x)
qed

lemma str_replace_absent:
  "old \<noteq> [] \<Longrightarrow> \<not> sublist old p \<Longrightarrow> str_replace old new p = p"
proof (induction p)
  case Nil
  then show ?case by simp
next
  case (Cons c cs)
  then have "\<not> prefix old (c # cs)" "\<not> sublist old cs"
    by (auto simp: sublist_Cons_right)
  with Cons show ?case by simp
qed

lemma no_token_hand_off:
  assumes "map_of (cookies s) cookie_name_csrf = None"
    and "distinct (map fst data)" and "''__csrf'' \<notin> fst ` set data"
  shows "req_data (outgoing s method p data) = (''__csrf'', PNone) # data"
  using assms dict_or_disjoint [of data "[(''__csrf'', PNone)]"]
  by (simp add: outgoing_def make_data_def csrf_token_def)

text \<open>
  C5. For every call of the overloaded \<^verbatim>\<open>request\<close>: the URL is the fixed origin followed by
  the path, and an origin already at the start of the path is stripped first; the fields sent
  carry the anti-forgery token exactly when the jar holds one, merged in front of the
  caller's fields; and when no token is known the fields sent are the caller's data
  unchanged. The data is a dict (distinct keys) without a field \<^verbatim>\<open>__csrf\<close> of its own. The
  guard of \<^verbatim>\<open>_make_data\<close> never fires, so without a token the dict handed to the transport
  holds \<^verbatim>\<open>__csrf\<close> with value \<^verbatim>\<open>None\<close> (\<open>no_token_hand_off\<close>); the transport skips that value,
  and no such field is sent.
\<close>

theorem request_resolves_path_and_merges_token:
  "req_url (outgoing s method (URL_MAIN @ p) data) = req_url (outgoing s method p data) \<and>
   (\<not> sublist URL_MAIN p \<longrightarrow> req_url (outgoing s method p data) = URL_MAIN @ p) \<and>
   (distinct (map fst data) \<and> ''__csrf'' \<notin> fst ` set data \<longrightarrow>
      encode_params (req_data (outgoing s method p data)) =
        (case map_of (cookies s) cookie_name_csrf of
           None \<Rightarrow> encode_params data
         | Some token \<Rightarrow> (''__csrf'', PStr token) # encode_params data))"
proof -
  have origin: "URL_MAIN \<noteq> []"
    by (simp add: URL_MAIN_def)
  have "req_url (outgoing s method p data) = URL_MAIN @ p" if "\<not> sublist URL_MAIN p"
    using that origin by (simp add: outgoing_def str_replace_absent)
  moreover have "encode_params (req_data (outgoing s method p data)) =
        (case map_of (cookies s) cookie_name_csrf of
           None \<Rightarrow> encode_params data
         | Some token \<Rightarrow> (''__csrf'', PStr token) # encode_params data)"
    if d: "distinct (map fst data) \<and> ''__csrf'' \<notin> fst ` set data"
  proof -
    have "req_data (outgoing s method p data) = csrf_token s @ data"
      using d dict_or_disjoint [of data "csrf_token s"]
      by (simp add: outgoing_def make_data_def csrf_token_def)
    then show ?thesis
      by (simp add: csrf_token_def encode_params_def split: option.splits)
  qed
  ultimately show ?thesis
    using outgoing_strips_origin by blast
qed

theorem request_resolves_path_and_merges_token_witness:
  "req_url (outgoing fresh ''POST'' ''film/x/'' [(''rating'', PStr ''8'')]) =
     ''https://letterboxd.com/film/x/'' \<and>
   encode_params (req_data (outgoing fresh ''POST'' ''film/x/'' [(''rating'', PStr ''8'')])) =
     [(''__csrf'', PStr ''t0''), (''rating'', PStr ''8'')] \<and>
   encode_params (req_data (outgoing blank ''POST'' ''film/x/'' [(''rating'', PStr ''8'')])) =
     [(''rating'', PStr ''8'')]"
proof -
  have absent: "\<not> sublist URL_MAIN ''film/x/''"
  proof
    assume "sublist URL_MAIN ''film/x/''"
    then have "length URL_MAIN \<le> length ''film/x/''"
      by (rule sublist_length_le)
    then show False by (simp add: URL_MAIN_def)
  qed
  have data: "distinct (map fst [(''rating'', PStr ''8'')]) \<and>
              ''__csrf'' \<notin> fst ` set [(''rating'', PStr ''8'')]"
    by simp
  note t = request_resolves_path_and_merges_token
    [of fresh "''POST''" "''film/x/''" "[(''rating'', PStr ''8'')]"]
  note n = request_resolves_path_and_merges_token
    [of blank "''POST''" "''film/x/''" "[(''rating'', PStr ''8'')]"]
  have "req_url (outgoing fresh ''POST'' ''film/x/'' [(''rating'', PStr ''8'')]) =
          URL_MAIN @ ''film/x/''"
    using t absent by blast
  moreover have "encode_params (req_data (outgoing fresh ''POST'' ''film/x/'' [(''rating'', PStr ''8'')])) =
      [(''__csrf'', PStr ''t0''), (''rating'', PStr ''8'')]"
    using t data by (simp add: fresh_def cookie_name_csrf_def encode_params_def)
  moreover have "encode_params (req_data (outgoing blank ''POST'' ''film/x/'' [(''rating'', PStr ''8'')])) =
      [(''rating'', PStr ''8'')]"
    using n data by (simp add: blank_def cookie_name_csrf_def encode_params_def)
  ultimately show ?thesis
    by (simp add: URL_MAIN_def)
qed

text \<open>
  C4, as amended. For every request issued through the gateway, the session is written to
  the cache exactly when the call returns the response. The session returned is the old one
  with the cookies of that response merged into the jar, and the file then holds exactly
  that session, stamped with the current time. When the transport raises, session and cache
  are as before; when the classification raises, the jar has taken the cookies of the
  response but the cache is left as it was.
\<close>

theorem request_persists_when_it_returns:
  assumes "request site (s, w) method suburl data = ((s', w'), res)"
  shows "(\<forall>r. res = Inr r \<longrightarrow>
            site (outgoing s method suburl data) = Inr r \<and>
            s' = s\<lparr>cookies := dict_or (cookies s) (set_cookie r)\<rparr> \<and>
            w' = w\<lparr>cache_file := Some (Pickled s', now w)\<rparr> \<and>
            cache_file w' = Some (Pickled s', now w) \<and> now w' = now w) \<and>
         (\<forall>e. res = Inl e \<longrightarrow>
            w' = w \<and>
            (site (outgoing s method suburl data) = Inl e \<and> s' = s \<or>
             (\<exists>r. site (outgoing s method suburl data) = Inr r \<and>
                  LetterboxdResponseDict r = Inl e \<and>
                  s' = s\<lparr>cookies := dict_or (cookies s) (set_cookie r)\<rparr>)))"
  using assms
  by (auto simp: request_def request_undecorated_def save_def Let_def
      split: prod.splits sum.splits)

lemma demo_missing:
  "request demo_site (blank, no_cache) ''GET'' ''missing/'' [] =
     ((blank\<lparr>cookies := [(''seen'', ''2'')]\<rparr>, no_cache), Inl HTTPError)"
  by (simp add: request_def request_undecorated_def outgoing_def demo_site_def URL_MAIN_def
      suburl_login_def page_def LetterboxdResponseDict_def get_letterboxd_response_dict_def
      get_letterboxd_errors_def raise_errors_def ok_def has_response_dict_def error_def
      result_def dict_get_def raise_for_status_def dict_or_def blank_def no_cache_def)

theorem request_persists_when_it_returns_witness:
  "request demo_site (blank, no_cache) ''GET'' ''alice/'' [] =
     ((blank\<lparr>cookies := [(''seen'', ''1'')]\<rparr>,
       \<lparr>cache_file = Some (Pickled (blank\<lparr>cookies := [(''seen'', ''1'')]\<rparr>), 10000),
        now = 10000\<rparr>),
      Inr (page [(''seen'', ''1'')] []))"
proof -
  obtain s' w' res where
    r: "request demo_site (blank, no_cache) ''GET'' ''alice/'' [] = ((s', w'), res)"
    by (metis surj_pair)
  have val: "res = Inr (page [(''seen'', ''1'')] [])" "s' = blank\<lparr>cookies := [(''seen'', ''1'')]\<rparr>"
    using r
    by (auto simp: gateway_defs classify_defs demo_defs blank_def no_cache_def)
  from request_persists_when_it_returns [OF r] val
  have "cache_file w' = Some (Pickled s', now no_cache)" "now w' = now no_cache"
    by auto
  then have "w' = \<lparr>cache_file = Some (Pickled s', 10000), now = 10000\<rparr>"
    by (cases w') (simp add: no_cache_def)
  with r val show ?thesis by simp
qed

text \<open>
  The claim that the state is persisted also when classification raises fails on the code:
  the request below receives a cookie and raises \<open>HTTPError\<close>, and no cache file is written.
\<close>

theorem request_raising_skips_save_counterexample:
  "request demo_site (blank, no_cache) ''GET'' ''missing/'' [] =
     ((blank\<lparr>cookies := [(''seen'', ''2'')]\<rparr>, no_cache), Inl HTTPError) \<and>
   cache_file no_cache = None"
  by (simp add: demo_missing) (simp add: no_cache_def)

subsection \<open>Loading the session\<close>

lemma request_keeps_credentials:
  "request site sw method suburl data = (sw', res) \<Longrightarrow>
   login_credentials (fst sw') = login_credentials (fst sw)"
  by (auto simp: request_def request_undecorated_def Let_def split: prod.splits sum.splits)

lemma init_is_cookies_then_login:
  "LunaboxdSession_init site input w =
     (case request site (\<lparr>login_credentials = Some input, cookies = []\<rparr>, w) ''GET'' '''' [] of
        (sw2, Inl e) \<Rightarrow> (snd sw2, Inl e)
      | (sw2, Inr r) \<Rightarrow>
          (case request site sw2 ''POST'' suburl_login
                  [(''username'', PStr (username input)), (''password'', PStr (password input))] of
             (sw3, Inl e) \<Rightarrow> (snd sw3, Inl e)
           | (sw3, Inr r') \<Rightarrow> (snd sw3, Inr (fst sw3))))"
proof -
  have creds: "get_credentials site input (\<lparr>login_credentials = None, cookies = []\<rparr>, w) =
                 ((\<lparr>login_credentials = Some input, cookies = []\<rparr>, w), Inr ())"
    by (simp add: get_credentials_def logged_in_check_def)
  show ?thesis
  proof (cases "request site (\<lparr>login_credentials = Some input, cookies = []\<rparr>, w) ''GET'' '''' []")
    case (Pair sw2 res)
    then have "login_credentials (fst sw2) = Some input"
      by (auto dest: request_keeps_credentials)
    with Pair creds show ?thesis
      by (auto simp: LunaboxdSession_init_def login_def split: sum.splits prod.splits)
  qed
qed

lemma verified_check_refreshes_file:
  assumes "logged_in_check site (s, w) = (sw', Inr True)"
  shows "file_updated_after (snd sw') (now w - 3600)"
  using assms
  by (auto simp: logged_in_check_def request_def save_def file_updated_after_def
      split: option.splits prod.splits sum.splits exn.splits)

text \<open>
  C3, as amended. \<^verbatim>\<open>load\<close> builds a fresh session (one request for the baseline cookies, then
  the login) when the cache file is absent, and when the unpickled session fails the
  logged-in verification. A corrupt cache is not discarded: the error of \<^verbatim>\<open>pickle.load\<close>
  propagates and no session is built. So the restored session is returned only from a cache
  that is present, intact and verified; it is returned when, in addition, the file read after
  the verification is less than an hour old.
\<close>

theorem load_discards_or_restores:
  "(cache_file w = None \<longrightarrow> load site input w = LunaboxdSession_init site input w) \<and>
   (\<forall>t. cache_file w = Some (Corrupt, t) \<longrightarrow> load site input w = (w, Inl UnpicklingError)) \<and>
   (\<forall>s t sw'. cache_file w = Some (Pickled s, t)
        \<and> logged_in_check site (s, w) = (sw', Inr False) \<longrightarrow>
      load site input w = LunaboxdSession_init site input (snd sw')) \<and>
   (\<forall>s t sw'. cache_file w = Some (Pickled s, t)
        \<and> logged_in_check site (s, w) = (sw', Inr True)
        \<and> file_updated_after (snd sw') (now w - 3600) \<longrightarrow>
      load site input w = (snd sw', Inr (fst sw'))) \<and>
   LunaboxdSession_init site input w =
     (case request site (\<lparr>login_credentials = Some input, cookies = []\<rparr>, w) ''GET'' '''' [] of
        (sw2, Inl e) \<Rightarrow> (snd sw2, Inl e)
      | (sw2, Inr r) \<Rightarrow>
          (case request site sw2 ''POST'' suburl_login
                  [(''username'', PStr (username input)), (''password'', PStr (password input))] of
             (sw3, Inl e) \<Rightarrow> (snd sw3, Inl e)
           | (sw3, Inr r') \<Rightarrow> (snd sw3, Inr (fst sw3))))"
proof -
  have "load site input w = LunaboxdSession_init site input w" if "cache_file w = None"
    using that by (simp add: load_def)
  moreover have "load site input w = (w, Inl UnpicklingError)"
    if "cache_file w = Some (Corrupt, t)" for t
    using that by (simp add: load_def)
  moreover have "load site input w = LunaboxdSession_init site input (snd sw')"
    if "cache_file w = Some (Pickled s, t) \<and> logged_in_check site (s, w) = (sw', Inr False)"
    for s t sw'
    using that by (simp add: load_def)
  moreover have "load site input w = (snd sw', Inr (fst sw'))"
    if "cache_file w = Some (Pickled s, t) \<and> logged_in_check site (s, w) = (sw', Inr True)
        \<and> file_updated_after (snd sw') (now w - 3600)"
    for s t sw'
    using that by (simp add: load_def)
  ultimately show ?thesis
    using init_is_cookies_then_login [of site input w] by blast
qed

lemma demo_init:
  "LunaboxdSession_init demo_site alice w = (w\<lparr>cache_file := Some (Pickled fresh, now w)\<rparr>, Inr fresh)"
  by (simp add: init_is_cookies_then_login gateway_defs classify_defs demo_defs fresh_def)

lemma demo_logged_out:
  "logged_in_check demo_site (logged_out, logged_out_cache) =
     ((logged_out\<lparr>cookies := [(''sid'', ''0''), (''seen'', ''1'')]\<rparr>,
       logged_out_cache\<lparr>cache_file :=
         Some (Pickled (logged_out\<lparr>cookies := [(''sid'', ''0''), (''seen'', ''1'')]\<rparr>), 10000)\<rparr>),
      Inr False)"
  by (simp add: logged_in_check_def gateway_defs classify_defs demo_defs logged_out_def
      logged_out_cache_def)

theorem load_discards_or_restores_witness:
  "load demo_site alice no_cache =
     (\<lparr>cache_file = Some (Pickled fresh, 10000), now = 10000\<rparr>, Inr fresh) \<and>
   load demo_site alice corrupt_cache = (corrupt_cache, Inl UnpicklingError) \<and>
   load demo_site alice logged_out_cache =
     (\<lparr>cache_file = Some (Pickled fresh, 10000), now = 10000\<rparr>, Inr fresh)"
proof -
  note absent = load_discards_or_restores [of no_cache demo_site alice, THEN conjunct1]
  note corrupt = load_discards_or_restores [of corrupt_cache demo_site alice,
      THEN conjunct2, THEN conjunct1, rule_format, of 9000]
  note unverified = load_discards_or_restores [of logged_out_cache demo_site alice,
      THEN conjunct2, THEN conjunct2, THEN conjunct1, rule_format, of logged_out 9000]
  have "load demo_site alice no_cache = LunaboxdSession_init demo_site alice no_cache"
    using absent by (simp add: no_cache_def)
  then have a: "load demo_site alice no_cache =
      (\<lparr>cache_file = Some (Pickled fresh, 10000), now = 10000\<rparr>, Inr fresh)"
    by (simp add: demo_init no_cache_def)
  have b: "load demo_site alice corrupt_cache = (corrupt_cache, Inl UnpicklingError)"
    using corrupt by (simp add: corrupt_cache_def)
  have "cache_file logged_out_cache = Some (Pickled logged_out, 9000)"
    by (simp add: logged_out_cache_def)
  with unverified demo_logged_out
  have c: "load demo_site alice logged_out_cache =
      (\<lparr>cache_file = Some (Pickled fresh, 10000), now = 10000\<rparr>, Inr fresh)"
    by (simp add: demo_init logged_out_cache_def)
  from a b c show ?thesis by simp
qed

text \<open>
  The claim that a corrupt cache is discarded and replaced by a fresh session fails on the
  code: \<^verbatim>\<open>load\<close> raises, where the constructor would have built the session.
\<close>

theorem load_corrupt_cache_counterexample:
  "load demo_site alice corrupt_cache = (corrupt_cache, Inl UnpicklingError) \<and>
   LunaboxdSession_init demo_site alice corrupt_cache =
     (\<lparr>cache_file = Some (Pickled fresh, 10000), now = 10000\<rparr>, Inr fresh)"
  by (simp add: load_def demo_init corrupt_cache_def)

subsection \<open>Collecting with a known last page\<close>

lemma results_loop_walk:
  assumes "\<forall>p. c < p \<and> p \<le> stop \<longrightarrow> fetch p = Inr (docs p)"
    and "c \<le> stop"
  shows "results_loop fetch stop response results c requested =
           Some (requested @ [c + 1..stop],
                 Inr (results @ results_on_page response
                      @ concat (map (\<lambda>p. results_on_page (docs p)) [c + 1..stop])))"
  using assms
proof (induction "nat (stop - c)" arbitrary: c response results requested)
  case 0
  then have "c = stop" by simp
  then show ?case
    by (subst results_loop.simps) simp
next
  case (Suc d)
  then have lt: "c < stop" by simp
  have up: "[c + 1..stop] = (c + 1) # [c + 1 + 1..stop]"
    using lt by (simp add: upto_rec1)
  have next_page: "fetch (c + 1) = Inr (docs (c + 1))"
    using Suc.prems lt by simp
  have "results_loop fetch stop (docs (c + 1)) (results @ results_on_page response) (c + 1)
          (requested @ [c + 1]) =
        Some ((requested @ [c + 1]) @ [c + 1 + 1..stop],
              Inr ((results @ results_on_page response) @ results_on_page (docs (c + 1))
                   @ concat (map (\<lambda>p. results_on_page (docs p)) [c + 1 + 1..stop])))"
    using Suc.prems Suc.hyps(2) lt by (intro Suc.hyps(1)) auto
  with lt next_page show ?case
    by (subst results_loop.simps) (simp add: up)
qed

lemma get_results_known_last_page:
  assumes pages: "\<forall>p. 1 \<le> p \<and> p \<le> L \<longrightarrow> fetch p = Inr (docs p)"
    and last: "last_page (docs 1) = L"
    and L: "1 \<le> L"
    and stop: "stop = (if truthy_limit limit then min L (py_ceil_div (the limit) RESULTS_PER_PAGE)
                       else L)"
    and limit: "\<forall>l. limit = Some l \<longrightarrow> 0 \<le> l"
  shows "get_results fetch limit =
           Some ([1..stop],
                 Inr (let results = concat (map (\<lambda>p. results_on_page (docs p)) [1..stop])
                      in if truthy_limit limit then take (nat (the limit)) results else results))"
proof -
  have first: "fetch 1 = Inr (docs 1)"
    using pages L by simp
  have soup: "get_soup fetch = Inr (Some (docs 1))"
    by (simp add: get_soup_def first)
  have stop1: "1 \<le> stop"
  proof (cases "truthy_limit limit")
    case True
    then obtain l where l: "limit = Some l" "l \<noteq> 0"
      by (auto simp: truthy_limit_def split: option.splits)
    with limit have "0 < l" by force
    then have "1 \<le> py_ceil_div l RESULTS_PER_PAGE"
      by (simp add: py_ceil_div_def RESULTS_PER_PAGE_def)
    with True l L stop show ?thesis by simp
  next
    case False
    with L stop show ?thesis by simp
  qed
  have le: "stop \<le> L"
    using stop by (simp split: if_splits)
  have walk: "results_loop fetch stop (docs 1) [] 1 [1] =
                Some ([1] @ [1 + 1..stop],
                      Inr ([] @ results_on_page (docs 1)
                           @ concat (map (\<lambda>p. results_on_page (docs p)) [1 + 1..stop])))"
    using pages le stop1 by (intro results_loop_walk) auto
  have up: "[1..stop] = 1 # [1 + 1..stop]"
    using stop1 by (simp add: upto_rec1)
  have nonneg: "0 \<le> the limit" if "truthy_limit limit"
    using that limit by (auto simp: truthy_limit_def split: option.splits)
  show ?thesis
  proof (cases "truthy_limit limit")
    case True
    with stop have stop_eq: "min L (py_ceil_div (the limit) RESULTS_PER_PAGE) = stop"
      by simp
    from True walk nonneg show ?thesis
      by (simp add: get_results_def soup last stop_eq up slice_to_def Let_def)
  next
    case False
    with stop have stop_eq: "L = stop"
      by simp
    from False walk show ?thesis
      by (simp add: get_results_def soup last stop_eq up Let_def)
  qed
qed

lemma length_concat_pages:
  "\<forall>p \<in> set ps. length (f p) = n \<Longrightarrow> length (concat (map f ps)) = n * length ps"
  by (induction ps) auto

lemma get_results_positive_limit:
  assumes pages: "\<forall>p. 1 \<le> p \<and> p \<le> L \<longrightarrow> fetch p = Inr (docs p)"
    and last: "last_page (docs 1) = L"
    and L: "1 \<le> L"
    and full: "\<forall>p. 1 \<le> p \<and> p \<le> L \<longrightarrow> length (results_on_page (docs p)) = 20"
    and l: "1 \<le> l"
  shows "\<exists>results.
           get_results fetch (Some l) =
             Some ([1..min L (py_ceil_div l RESULTS_PER_PAGE)], Inr results) \<and>
           results = take (nat l) (concat (map (\<lambda>p. results_on_page (docs p)) [1..L])) \<and>
           int (length results) = min l (20 * L)"
proof -
  let ?stop = "min L (py_ceil_div l RESULTS_PER_PAGE)"
  let ?f = "\<lambda>p. results_on_page (docs p)"
  have truthy: "truthy_limit (Some l)"
    using l by (simp add: truthy_limit_def)
  have res: "get_results fetch (Some l) =
               Some ([1..?stop], Inr (take (nat l) (concat (map ?f [1..?stop]))))"
    using get_results_known_last_page [OF pages last L, of ?stop "Some l"] truthy l
    by (simp add: Let_def)
  have ceil: "l \<le> 20 * py_ceil_div l RESULTS_PER_PAGE" "1 \<le> py_ceil_div l RESULTS_PER_PAGE"
    using l by (simp_all add: py_ceil_div_def RESULTS_PER_PAGE_def)
  have stop: "0 \<le> ?stop" "?stop \<le> L"
    using L ceil by simp_all
  have split: "[1..L] = [1..?stop] @ [?stop + 1..L]"
    using stop ceil L by (intro upto_split2) auto
  have len_stop: "length (concat (map ?f [1..?stop])) = 20 * nat ?stop"
    using full stop by (subst length_concat_pages [where n = 20]) auto
  have len_all: "length (concat (map ?f [1..L])) = 20 * nat L"
    using full L by (subst length_concat_pages [where n = 20]) auto
  have same: "take (nat l) (concat (map ?f [1..?stop])) = take (nat l) (concat (map ?f [1..L]))"
  proof (cases "?stop = L")
    case True
    then show ?thesis by simp
  next
    case False
    with stop have "?stop = py_ceil_div l RESULTS_PER_PAGE" by simp
    with ceil len_stop have enough: "nat l \<le> length (concat (map ?f [1..?stop]))"
      by simp
    have "concat (map ?f [1..L]) =
            concat (map ?f [1..?stop]) @ concat (map ?f [?stop + 1..L])"
      using split by (metis concat_append map_append)
    with enough show ?thesis
      by simp
  qed
  have "int (length (take (nat l) (concat (map ?f [1..L])))) = min l (20 * L)"
    using len_all l L by simp
  with res same show ?thesis
    by simp
qed

lemma two_pages_all:
  "\<forall>p. 1 \<le> p \<and> p \<le> 2 \<longrightarrow>
     two_pages p = Inr \<lparr>last_page = 2, results_on_page = map (Pair p) [0..<20]\<rparr>"
  by (auto simp: two_pages_def)

text \<open>
  C2. The claim: for every limit at least 0, collecting from a source of \<open>P\<close> full pages
  returns \<open>min(limit, P * pageSize)\<close> records in page order and requests no page beyond
  \<open>ceil(limit / pageSize)\<close>; with limit 0 it issues one fetch and returns nothing. For every
  positive limit the code does so (\<open>get_results_positive_limit\<close>). With limit 0 the test
  \<^verbatim>\<open>if limit\<close> takes the limit for unset: on a source of two pages the code requests both and
  returns all forty records.
\<close>

theorem get_results_limit_zero:
  "get_results two_pages (Some 0) =
     Some ([1, 2], Inr (map (Pair 1) [0..<20] @ map (Pair 2) [0..<20])) \<and>
   get_results two_pages (Some 0) \<noteq> Some ([1], Inr [])"
proof -
  have "get_results two_pages (Some 0) =
          Some ([1..2],
                Inr (let results = concat (map (\<lambda>p. results_on_page
                        \<lparr>last_page = 2, results_on_page = map (Pair p) [0..<20]\<rparr>) [1..2])
                     in if truthy_limit (Some 0) then take (nat (the (Some 0))) results
                        else results))"
    by (rule get_results_known_last_page [OF two_pages_all])
       (simp_all add: truthy_limit_def)
  then show ?thesis
    by (simp add: truthy_limit_def upto_rec1)
qed

subsection \<open>Collecting by following the next control\<close>

lemma people_loop_walk:
  assumes "\<forall>p. n \<le> p \<and> p \<le> k \<longrightarrow> fetch p = Inr (docs p)"
    and "\<forall>p. n \<le> p \<and> p < k \<longrightarrow> has_next (docs p)"
    and "\<not> has_next (docs k)"
    and "n \<le> k"
  shows "people_loop fetch results n requested =
           Some (requested @ [n..k], Inr (results @ concat (map (\<lambda>p. people (docs p)) [n..k])))"
  using assms
proof (induction "nat (k - n)" arbitrary: n results requested)
  case 0
  then have "n = k" by simp
  with 0 show ?case
    by (subst people_loop.simps) simp
next
  case (Suc d)
  then have lt: "n < k" by simp
  have up: "[n..k] = n # [n + 1..k]"
    using lt by (simp add: upto_rec1)
  have "people_loop fetch (results @ people (docs n)) (n + 1) (requested @ [n]) =
          Some ((requested @ [n]) @ [n + 1..k],
                Inr ((results @ people (docs n)) @ concat (map (\<lambda>p. people (docs p)) [n + 1..k])))"
    using Suc.prems Suc.hyps(2) lt by (intro Suc.hyps(1)) auto
  with Suc.prems lt show ?case
    by (subst people_loop.simps) (simp add: up)
qed

text \<open>
  C6. Under the sentinel-link strategy the pages are requested one after the other from
  page 1, each page's records are appended in order, and the walk stops at the first page
  without a "next" control: when pages \<open>1..k\<close> load, pages before \<open>k\<close> have the control and
  page \<open>k\<close> has not, the requests are exactly \<open>1..k\<close> and the result is the records of all
  \<open>k\<close> pages. The function has no limit parameter, so no limit can cut the result.
\<close>

theorem get_people_walks_to_last_page:
  assumes "1 \<le> k"
    and "\<forall>p. 1 \<le> p \<and> p \<le> k \<longrightarrow> fetch p = Inr (docs p)"
    and "\<forall>p. 1 \<le> p \<and> p < k \<longrightarrow> has_next (docs p)"
    and "\<not> has_next (docs k)"
  shows "get_people fetch =
           Some ([1..k], Inr (concat (map (\<lambda>p. people (docs p)) [1..k])))"
  unfolding get_people_def
  using people_loop_walk [of 1 k fetch docs "[]" "[]"] assms by simp

theorem get_people_walks_to_last_page_witness:
  "get_people three_pages = Some ([1, 2, 3], Inr [''ann'', ''bob'', ''cat'', ''dan'', ''eve''])"
proof -
  let ?docs = "\<lambda>p. case three_pages p of Inr d \<Rightarrow> d"
  have "get_people three_pages =
          Some ([1..3], Inr (concat (map (\<lambda>p. people (?docs p)) [1..3])))"
    by (rule get_people_walks_to_last_page) (auto simp: three_pages_def)
  then show ?thesis
    by (simp add: three_pages_def upto_rec1)
qed

end
